theory Spec2Isabelle
  imports Main "HOL-Library.Word" "HOL-Library.FSet"
begin

section \<open>Raft core: configurations and log slices\<close>

text \<open>
  A shallow embedding of the value classes of the Raft core header
  (\<^verbatim>\<open>raft_config_t\<close>, \<^verbatim>\<open>raft_complex_config_t\<close>, \<^verbatim>\<open>raft_log_entry_t\<close>,
  \<^verbatim>\<open>raft_log_t\<close>) and of the timing constants of \<^verbatim>\<open>raft_member_t\<close>.

  \<^item> \<^verbatim>\<open>machine_id_t\<close> is declared in a header that is not part of the sources; the
    code only needs its total order (it is the key of a \<^verbatim>\<open>std::set\<close>), so it is the
    type parameter \<open>'m::linorder\<close>.
  \<^item> \<^verbatim>\<open>std::set<machine_id_t>\<close> is a finite set, iterated in increasing order:
    \<open>'m fset\<close>, with \<open>sorted_list_of_fset\<close> for the iteration.
  \<^item> \<^verbatim>\<open>size_t\<close>, \<^verbatim>\<open>raft_term_t\<close> and \<^verbatim>\<open>raft_log_index_t\<close> are unsigned 64-bit
    integers: \<open>64 word\<close>, whose arithmetic wraps around as in C++.
  \<^item> \<^verbatim>\<open>boost::optional\<close> is \<open>option\<close>; \<^verbatim>\<open>std::deque\<close> is a list.
  \<^item> \<^verbatim>\<open>guarantee(cond, msg)\<close> aborts the process when \<open>cond\<close> is false: the
    functions that contain one return \<open>error + 'a\<close>, with \<open>Inl\<close> for the abort.
\<close>

subsection \<open>Machine integers and containers\<close>

type_synonym size_t = "64 word"
type_synonym raft_term_t = "64 word"
type_synonym raft_log_index_t = "64 word"

text \<open>\<^verbatim>\<open>std::set::count\<close>: the number of elements equal to the key, 0 or 1.\<close>

definition set_count :: "'m fset \<Rightarrow> 'm \<Rightarrow> size_t" where
  "set_count s m = (if m |\<in>| s then 1 else 0)"

text \<open>\<^verbatim>\<open>std::set::size\<close>, as a \<^verbatim>\<open>size_t\<close>.\<close>

definition set_size :: "'m fset \<Rightarrow> size_t" where
  "set_size s = of_nat (fcard s)"

text \<open>
  \<^verbatim>\<open>dst.insert(first, last)\<close> over the whole of another set: every element of the
  range is inserted in turn.
\<close>

definition insert_range :: "'m fset \<Rightarrow> ('m::linorder) fset \<Rightarrow> 'm fset" where
  "insert_range dst src = fold finsert (sorted_list_of_fset src) dst"

subsection \<open>\<^verbatim>\<open>raft_config_t\<close>\<close>

record 'm raft_config_t =
  voting_members :: "'m fset"
  non_voting_members :: "'m fset"

definition get_all_members :: "('m::linorder) raft_config_t \<Rightarrow> 'm fset" where
  "get_all_members c =
     (let members = {||};
          members = insert_range members (voting_members c);
          members = insert_range members (non_voting_members c)
      in members)"

text \<open>
  The loop of \<^verbatim>\<open>is_quorum\<close>:
  \<^verbatim>\<open>for (const machine_id_t &m : members) { votes += voting_members.count(m); }\<close>
  over the elements of \<open>members\<close> in iteration order, with the counter passed along.
\<close>

fun count_votes :: "'m fset \<Rightarrow> 'm list \<Rightarrow> size_t \<Rightarrow> size_t" where
  "count_votes voting [] votes = votes"
| "count_votes voting (m # ms) votes = count_votes voting ms (votes + set_count voting m)"

definition is_quorum :: "('m::linorder) raft_config_t \<Rightarrow> 'm fset \<Rightarrow> bool" where
  "is_quorum c members =
     (let votes = count_votes (voting_members c) (sorted_list_of_fset members) 0
      in votes * 2 > set_size (voting_members c))"

definition is_valid_leader :: "'m raft_config_t \<Rightarrow> 'm \<Rightarrow> bool" where
  "is_valid_leader c member = (set_count (voting_members c) member = 1)"

subsection \<open>\<^verbatim>\<open>raft_complex_config_t\<close>\<close>

record 'm raft_complex_config_t =
  config :: "'m raft_config_t"
  new_config :: "'m raft_config_t option"

definition is_joint_consensus :: "'m raft_complex_config_t \<Rightarrow> bool" where
  "is_joint_consensus cc = (new_config cc \<noteq> None)"

text \<open>
  \<^verbatim>\<open>new_config->\<close> reads the value of the optional, written \<open>the (new_config cc)\<close>.
  The three methods below only do so after \<^verbatim>\<open>is_joint_consensus()\<close> has answered
  true, so the value is there whenever it is read.
\<close>

definition cx_get_all_members :: "('m::linorder) raft_complex_config_t \<Rightarrow> 'm fset" where
  "cx_get_all_members cc =
     (let members = get_all_members (config cc)
      in if is_joint_consensus cc
         then (let members2 = get_all_members (the (new_config cc))
               in insert_range members members2)
         else members)"

definition cx_is_quorum :: "('m::linorder) raft_complex_config_t \<Rightarrow> 'm fset \<Rightarrow> bool" where
  "cx_is_quorum cc members =
     (if is_joint_consensus cc
      then is_quorum (config cc) members \<and> is_quorum (the (new_config cc)) members
      else is_quorum (config cc) members)"

definition cx_is_valid_leader :: "'m raft_complex_config_t \<Rightarrow> 'm \<Rightarrow> bool" where
  "cx_is_valid_leader cc member =
     (is_valid_leader (config cc) member \<or>
      (is_joint_consensus cc \<and> is_valid_leader (the (new_config cc)) member))"

subsection \<open>\<^verbatim>\<open>raft_log_entry_t\<close>\<close>

text \<open>The enumeration \<^verbatim>\<open>raft_log_entry_t::type_t\<close>, with its scope in the names.\<close>

datatype type_t = type_t_regular | type_t_configuration | type_t_noop

text \<open>
  The entry is a template over the state machine; only its change type \<open>'c\<close> occurs in
  the entry.
\<close>

record ('c, 'm) raft_log_entry_t =
  "type" :: type_t
  "term" :: raft_term_t
  change :: "'c option"
  configuration :: "'m raft_complex_config_t option"

subsection \<open>\<^verbatim>\<open>raft_log_t\<close>\<close>

text \<open>
  The ways a method of the log can abort: one of the two \<^verbatim>\<open>guarantee\<close> messages
  ("the log doesn't go back this far", "the log doesn't go forward this far"), or a
  position handed to the deque that is outside of it (undefined behaviour in C++).
\<close>

datatype error =
    Log_doesnt_go_back_this_far
  | Log_doesnt_go_forward_this_far
  | Out_of_range

record ('c, 'm) raft_log_t =
  prev_index :: raft_log_index_t
  prev_term :: raft_term_t
  entries :: "('c, 'm) raft_log_entry_t list"

text \<open>\<^verbatim>\<open>std::deque::size\<close>, as a \<^verbatim>\<open>size_t\<close>.\<close>

definition deque_size :: "'a list \<Rightarrow> size_t" where
  "deque_size d = of_nat (length d)"

text \<open>\<^verbatim>\<open>d[n]\<close>: defined only for a position inside the deque.\<close>

definition deque_at :: "'a list \<Rightarrow> size_t \<Rightarrow> error + 'a" where
  "deque_at d n = (if unat n < length d then Inr (d ! unat n) else Inl Out_of_range)"

text \<open>
  \<^verbatim>\<open>d.erase(d.begin() + i, d.begin() + j)\<close>: defined only for a valid range
  of positions; \<^verbatim>\<open>d.end()\<close> is the position \<open>length d\<close>. The positions are
  the offsets that the caller adds to \<^verbatim>\<open>begin()\<close>, as numbers.
\<close>

definition deque_erase :: "'a list \<Rightarrow> nat \<Rightarrow> nat \<Rightarrow> error + 'a list" where
  "deque_erase d i j =
     (if i \<le> j \<and> j \<le> length d then Inr (take i d @ drop j d)
      else Inl Out_of_range)"

definition get_latest_index :: "('c, 'm) raft_log_t \<Rightarrow> raft_log_index_t" where
  "get_latest_index l = prev_index l + deque_size (entries l)"

definition get_entry_ref ::
  "('c, 'm) raft_log_t \<Rightarrow> raft_log_index_t \<Rightarrow> error + ('c, 'm) raft_log_entry_t" where
  "get_entry_ref l index =
     (if \<not> index > prev_index l then Inl Log_doesnt_go_back_this_far
      else if \<not> index \<le> get_latest_index l then Inl Log_doesnt_go_forward_this_far
      else deque_at (entries l) (index - prev_index l - 1))"

definition get_entry_term :: "('c, 'm) raft_log_t \<Rightarrow> raft_log_index_t \<Rightarrow> error + raft_term_t" where
  "get_entry_term l index =
     (if \<not> index \<ge> prev_index l then Inl Log_doesnt_go_back_this_far
      else if \<not> index \<le> get_latest_index l then Inl Log_doesnt_go_forward_this_far
      else if index = prev_index l then Inr (prev_term l)
      else (case get_entry_ref l index of
              Inl e \<Rightarrow> Inl e
            | Inr entry \<Rightarrow> Inr (term entry)))"

definition delete_entries_from ::
  "('c, 'm) raft_log_t \<Rightarrow> raft_log_index_t \<Rightarrow> error + ('c, 'm) raft_log_t" where
  "delete_entries_from l index =
     (if \<not> index > prev_index l then Inl Log_doesnt_go_back_this_far
      else if \<not> index \<le> get_latest_index l then Inl Log_doesnt_go_forward_this_far
      else (case deque_erase (entries l) (unat (index - prev_index l - 1)) (length (entries l)) of
              Inl e \<Rightarrow> Inl e
            | Inr es \<Rightarrow> Inr (l\<lparr>entries := es\<rparr>)))"

definition delete_entries_to ::
  "('c, 'm) raft_log_t \<Rightarrow> raft_log_index_t \<Rightarrow> error + ('c, 'm) raft_log_t" where
  "delete_entries_to l index =
     (if \<not> index > prev_index l then Inl Log_doesnt_go_back_this_far
      else if \<not> index \<le> get_latest_index l then Inl Log_doesnt_go_forward_this_far
      else (case get_entry_term l index of
              Inl e \<Rightarrow> Inl e
            | Inr index_term \<Rightarrow>
                (case deque_erase (entries l) 0 (unat (index - prev_index l)) of
                   Inl e \<Rightarrow> Inl e
                 | Inr es \<Rightarrow>
                     Inr (l\<lparr>entries := es, prev_index := index, prev_term := index_term\<rparr>))))"

text \<open>\<^verbatim>\<open>raft_log_t::append\<close> (\<^verbatim>\<open>entries.push_back(entry)\<close>).\<close>

definition append_entry ::
  "('c, 'm) raft_log_t \<Rightarrow> ('c, 'm) raft_log_entry_t \<Rightarrow> ('c, 'm) raft_log_t" where
  "append_entry l entry = l\<lparr>entries := entries l @ [entry]\<rparr>"

subsection \<open>Timing constants of \<^verbatim>\<open>raft_member_t\<close>\<close>

text \<open>The three constants are \<^verbatim>\<open>static const int32_t\<close>; \<open>sint\<close> reads their value.\<close>

type_synonym int32_t = "32 word"

definition election_timeout_min_ms :: int32_t where
  "election_timeout_min_ms = 1000"

definition election_timeout_max_ms :: int32_t where
  "election_timeout_max_ms = 2000"

definition heartbeat_interval_ms :: int32_t where
  "heartbeat_interval_ms = 500"

subsection \<open>Example values\<close>

text \<open>A small log slice, based at index 5, used to instantiate the theorems below.\<close>

definition ex_entry :: "raft_term_t \<Rightarrow> (nat, nat) raft_log_entry_t" where
  "ex_entry t = \<lparr>type = type_t_noop, term = t, change = None, configuration = None\<rparr>"

definition ex_log :: "(nat, nat) raft_log_t" where
  "ex_log = \<lparr>prev_index = 5, prev_term = 2, entries = [ex_entry 3, ex_entry 3, ex_entry 4]\<rparr>"

definition ex_log_at_max :: "(nat, nat) raft_log_t" where
  "ex_log_at_max = \<lparr>prev_index = 18446744073709551615, prev_term = 2, entries = []\<rparr>"

definition ex_log_wrapped :: "(nat, nat) raft_log_t" where
  "ex_log_wrapped =
     \<lparr>prev_index = 18446744073709551614, prev_term = 2,
      entries = [ex_entry 3, ex_entry 3, ex_entry 4]\<rparr>"

section \<open>Helper lemmas\<close>

lemma fold_finsert_list: "fold finsert xs dst = dst |\<union>| fset_of_list xs"
  by (induction xs arbitrary: dst) auto

lemma insert_range_union: "insert_range dst src = dst |\<union>| src"
  by (simp add: insert_range_def fold_finsert_list)

lemma get_all_members_union:
  "get_all_members c = voting_members c |\<union>| non_voting_members c"
  by (simp add: get_all_members_def insert_range_union)

lemma is_valid_leader_iff: "is_valid_leader c m \<longleftrightarrow> m |\<in>| voting_members c"
  by (simp add: is_valid_leader_def set_count_def)

subsection \<open>Counting votes\<close>

lemma count_votes_filter:
  "count_votes V xs acc = acc + of_nat (length (filter (\<lambda>m. m |\<in>| V) xs))"
  by (induction xs arbitrary: acc) (auto simp: set_count_def)

lemma filter_sorted_list_card:
  "length (filter (\<lambda>m. m |\<in>| V) (sorted_list_of_fset S)) = fcard (S |\<inter>| V)"
proof -
  have d: "distinct (filter (\<lambda>m. m |\<in>| V) (sorted_list_of_fset S))"
    by (simp add: sorted_list_of_fset.rep_eq)
  have s: "set (filter (\<lambda>m. m |\<in>| V) (sorted_list_of_fset S)) = fset (S |\<inter>| V)"
    by auto
  show ?thesis
    using distinct_card [OF d] s by (simp add: fcard.rep_eq)
qed

lemma count_votes_sorted_list:
  "count_votes V (sorted_list_of_fset S) 0 = of_nat (fcard (S |\<inter>| V))"
  by (simp add: count_votes_filter filter_sorted_list_card)

lemma is_quorum_card:
  assumes "fcard (voting_members c) < 2 ^ 63"
  shows "is_quorum c S \<longleftrightarrow> fcard (voting_members c) < 2 * fcard (S |\<inter>| voting_members c)"
proof -
  let ?V = "voting_members c"
  let ?k = "fcard (S |\<inter>| ?V)"
  have le: "?k \<le> fcard ?V" by (simp add: fcard_mono)
  have k2: "unat (of_nat ?k * 2 :: 64 word) = 2 * ?k"
    using le assms by (simp add: unat_word_ariths unat_of_nat)
  have v: "unat (of_nat (fcard ?V) :: 64 word) = fcard ?V"
    using assms by (simp add: unat_of_nat)
  show ?thesis
    by (simp add: is_quorum_def set_size_def count_votes_sorted_list word_less_nat_alt k2 v)
qed

lemma is_quorum_voters_only: "is_quorum c S = is_quorum c (S |\<inter>| voting_members c)"
  by (simp add: is_quorum_def count_votes_sorted_list)

lemma majorities_share_voter:
  assumes "fcard V < 2 * fcard (S |\<inter>| V)" and "fcard V < 2 * fcard (T |\<inter>| V)"
  shows "\<exists>m. m |\<in>| S \<and> m |\<in>| T \<and> m |\<in>| V"
proof (rule ccontr)
  assume "\<not> ?thesis"
  then have disj: "(S |\<inter>| V) |\<inter>| (T |\<inter>| V) = {||}" by auto
  have "fcard ((S |\<inter>| V) |\<union>| (T |\<inter>| V)) = fcard (S |\<inter>| V) + fcard (T |\<inter>| V)"
    using disj by (rule fcard_funion_disjoint)
  moreover have "fcard ((S |\<inter>| V) |\<union>| (T |\<inter>| V)) \<le> fcard V"
    by (rule fcard_mono) auto
  ultimately show False using assms by linarith
qed

lemma is_quorum_empty_voting: "voting_members c = {||} \<Longrightarrow> \<not> is_quorum c S"
  by (simp add: is_quorum_def set_size_def count_votes_sorted_list fcard_fempty)

subsection \<open>Log positions\<close>

lemma unat_add_of_nat:
  fixes p :: "64 word"
  shows "unat (p + of_nat n) = (unat p + n) mod 2 ^ 64"
  by (simp add: unat_word_ariths unat_of_nat mod_add_right_eq)

lemma offset_le_length:
  fixes p i :: "64 word"
  assumes "p < i" and "i \<le> p + of_nat n"
  shows "unat i - unat p \<le> n"
proof (cases "n < 2 ^ 64")
  case False
  have "unat i < 2 ^ 64" using unsigned_less [of i] by simp
  with False show ?thesis by linarith
next
  case True
  have pi: "unat p < unat i" using assms(1) by (simp add: word_less_nat_alt)
  have il: "unat i \<le> (unat p + n) mod 2 ^ 64"
    using assms(2) by (simp add: word_le_nat_alt unat_add_of_nat)
  have pb: "unat p < 2 ^ 64" using unsigned_less [of p] by simp
  show ?thesis
  proof (cases "unat p + n < 2 ^ 64")
    case True
    then show ?thesis using il by simp
  next
    case False
    then have "(unat p + n) mod 2 ^ 64 = unat p + n - 2 ^ 64"
      using True pb by (simp add: mod_if)
    then show ?thesis using il pi True by linarith
  qed
qed

lemma unat_offset:
  fixes p i :: "64 word"
  assumes "p < i"
  shows "unat (i - p) = unat i - unat p" and "unat (i - p - 1) = unat i - unat p - 1"
proof -
  show a: "unat (i - p) = unat i - unat p"
    using assms by (simp add: unat_sub word_le_nat_alt word_less_nat_alt)
  have "1 \<le> i - p" using assms a by (simp add: word_le_nat_alt word_less_nat_alt)
  then show "unat (i - p - 1) = unat i - unat p - 1"
    using a by (simp add: unat_sub)
qed

lemma in_log_offset:
  assumes "prev_index l < i" and "i \<le> get_latest_index l"
  shows "unat (prev_index l) < unat i"
    and "unat i - unat (prev_index l) \<le> length (entries l)"
    and "unat i - unat (prev_index l) - 1 < length (entries l)"
proof -
  show a: "unat (prev_index l) < unat i"
    using assms(1) by (simp add: word_less_nat_alt)
  show b: "unat i - unat (prev_index l) \<le> length (entries l)"
    using assms by (auto simp: get_latest_index_def deque_size_def intro: offset_le_length)
  show "unat i - unat (prev_index l) - 1 < length (entries l)"
    using a b by linarith
qed

lemma get_entry_ref_in_log:
  assumes "prev_index l < i" and "i \<le> get_latest_index l"
  shows "get_entry_ref l i = Inr (entries l ! (unat i - unat (prev_index l) - 1))"
  using assms in_log_offset(3) [OF assms]
  by (simp add: get_entry_ref_def deque_at_def unat_offset(2))

lemma get_entry_term_in_log:
  assumes "prev_index l < i" and "i \<le> get_latest_index l"
  shows "get_entry_term l i = Inr (term (entries l ! (unat i - unat (prev_index l) - 1)))"
proof -
  have "prev_index l \<le> i" and "i \<noteq> prev_index l" using assms(1) by auto
  then show ?thesis
    using assms by (simp add: get_entry_term_def get_entry_ref_in_log)
qed

lemma ex_log_simps:
  "prev_index ex_log = 5" "prev_term ex_log = 2"
  "entries ex_log = [ex_entry 3, ex_entry 3, ex_entry 4]"
  "get_latest_index ex_log = 8"
  by (simp_all add: ex_log_def get_latest_index_def deque_size_def)

lemma get_latest_index_drop:
  assumes "prev_index l < i" and "i \<le> get_latest_index l"
  shows "i + deque_size (drop (unat i - unat (prev_index l)) (entries l)) = get_latest_index l"
proof -
  let ?k = "unat i - unat (prev_index l)"
  have k: "?k \<le> length (entries l)" using assms by (rule in_log_offset(2))
  have "(of_nat (length (entries l) - ?k) :: 64 word) = of_nat (length (entries l)) - of_nat ?k"
    using k by (simp add: of_nat_diff)
  moreover have "(of_nat ?k :: 64 word) = i - prev_index l"
    using unat_offset(1) [OF assms(1), symmetric] by simp
  ultimately show ?thesis
    by (simp add: get_latest_index_def deque_size_def)
qed

lemma get_latest_index_take:
  assumes "prev_index l < i" and "i \<le> get_latest_index l"
  shows "prev_index l + deque_size (take (unat i - unat (prev_index l) - 1) (entries l)) = i - 1"
proof -
  let ?m = "unat i - unat (prev_index l) - 1"
  have m: "?m < length (entries l)" using assms by (rule in_log_offset(3))
  have "(of_nat ?m :: 64 word) = i - prev_index l - 1"
    using unat_offset(2) [OF assms(1), symmetric] by simp
  then show ?thesis
    using m by (simp add: deque_size_def min_def)
qed

lemma word_pred_less:
  fixes p i j :: "64 word"
  assumes "p < i"
  shows "p \<le> i - 1" and "j < i \<longleftrightarrow> j \<le> i - 1"
proof -
  have "i \<noteq> 0" using assms by auto
  then have u: "unat (i - 1) = unat i - 1" by (rule unat_minus_one)
  have "unat p < unat i" using assms by (simp add: word_less_nat_alt)
  then show "p \<le> i - 1" using u by (simp add: word_le_nat_alt)
  have "0 < unat i" using \<open>unat p < unat i\<close> by linarith
  then show "j < i \<longleftrightarrow> j \<le> i - 1"
    using u by (auto simp: word_le_nat_alt word_less_nat_alt)
qed

lemma delete_entries_from_in_log:
  assumes "prev_index l < i" and "i \<le> get_latest_index l"
  shows "delete_entries_from l i
           = Inr (l\<lparr>entries := take (unat i - unat (prev_index l) - 1) (entries l)\<rparr>)"
  using assms in_log_offset(3) [OF assms]
  by (simp add: delete_entries_from_def deque_erase_def unat_offset(2))

lemma get_entry_ref_take:
  assumes "prev_index l < i" and "i \<le> get_latest_index l" and "j < i"
  shows "get_entry_ref (l\<lparr>entries := take (unat i - unat (prev_index l) - 1) (entries l)\<rparr>) j
           = get_entry_ref l j"
proof (cases "prev_index l < j")
  case False
  then show ?thesis by (simp add: get_entry_ref_def)
next
  case True
  let ?l' = "l\<lparr>entries := take (unat i - unat (prev_index l) - 1) (entries l)\<rparr>"
  have lat: "get_latest_index ?l' = i - 1"
    using get_latest_index_take [OF assms(1,2)] by (simp add: get_latest_index_def)
  have j1: "j \<le> get_latest_index ?l'"
    using assms(3) word_pred_less(2) [OF assms(1)] lat by simp
  have j2: "j \<le> get_latest_index l" using assms(2,3) by simp
  have "unat j < unat i" using assms(3) by (simp add: word_less_nat_alt)
  moreover have "unat (prev_index l) < unat j" using True by (simp add: word_less_nat_alt)
  ultimately have n: "unat j - unat (prev_index l) - 1 < unat i - unat (prev_index l) - 1"
    by linarith
  have "get_entry_ref ?l' j = Inr (entries ?l' ! (unat j - unat (prev_index ?l') - 1))"
    using True j1 by (intro get_entry_ref_in_log) simp_all
  also have "\<dots> = Inr (entries l ! (unat j - unat (prev_index l) - 1))"
    using n by simp
  also have "\<dots> = get_entry_ref l j"
    using get_entry_ref_in_log [OF True j2] by simp
  finally show ?thesis .
qed

lemma get_entry_term_take:
  assumes "prev_index l < i" and "i \<le> get_latest_index l" and "j < i"
  shows "get_entry_term (l\<lparr>entries := take (unat i - unat (prev_index l) - 1) (entries l)\<rparr>) j
           = get_entry_term l j"
proof -
  let ?l' = "l\<lparr>entries := take (unat i - unat (prev_index l) - 1) (entries l)\<rparr>"
  have lat: "get_latest_index ?l' = i - 1"
    using get_latest_index_take [OF assms(1,2)] by (simp add: get_latest_index_def)
  have j1: "j \<le> get_latest_index ?l'"
    using assms(3) word_pred_less(2) [OF assms(1)] lat by simp
  have j2: "j \<le> get_latest_index l" using assms(2,3) by simp
  show ?thesis
    using j1 j2 get_entry_ref_take [OF assms]
    by (simp add: get_entry_term_def)
qed

lemma delete_entries_to_in_log:
  assumes "prev_index l < i" and "i \<le> get_latest_index l"
  shows "delete_entries_to l i
           = Inr (l\<lparr>entries := drop (unat i - unat (prev_index l)) (entries l),
                   prev_index := i,
                   prev_term := term (entries l ! (unat i - unat (prev_index l) - 1))\<rparr>)"
  using assms in_log_offset(2) [OF assms] get_entry_term_in_log [OF assms]
  by (simp add: delete_entries_to_def deque_erase_def unat_offset(1))

lemma get_entry_ref_drop:
  assumes "prev_index l < i" and "i \<le> get_latest_index l" and "i < j"
  shows "get_entry_ref (l\<lparr>entries := drop (unat i - unat (prev_index l)) (entries l),
                          prev_index := i, prev_term := t\<rparr>) j
           = get_entry_ref l j"
proof (cases "j \<le> get_latest_index l")
  let ?l' = "l\<lparr>entries := drop (unat i - unat (prev_index l)) (entries l),
                prev_index := i, prev_term := t\<rparr>"
  have lat: "get_latest_index ?l' = get_latest_index l"
    using get_latest_index_drop [OF assms(1,2)] by (simp add: get_latest_index_def)
  have pj: "prev_index l < j" using assms(1,3) by simp
  {
    case False
    then show ?thesis using lat pj assms(3) by (simp add: get_entry_ref_def)
  next
    case True
    have k: "unat i - unat (prev_index l) \<le> length (entries l)"
      using assms(1,2) by (rule in_log_offset(2))
    have "unat (prev_index l) < unat i" using assms(1) by (simp add: word_less_nat_alt)
    moreover have "unat i < unat j" using assms(3) by (simp add: word_less_nat_alt)
    ultimately have n: "unat i - unat (prev_index l) + (unat j - unat i - 1)
                          = unat j - unat (prev_index l) - 1"
      by linarith
    have "get_entry_ref ?l' j = Inr (entries ?l' ! (unat j - unat (prev_index ?l') - 1))"
      using assms(3) True lat by (intro get_entry_ref_in_log) simp_all
    also have "\<dots> = Inr (entries l ! (unat j - unat (prev_index l) - 1))"
      using k n by simp
    also have "\<dots> = get_entry_ref l j"
      using get_entry_ref_in_log [OF pj True] by simp
    finally show ?thesis .
  }
qed

lemma get_entry_term_drop:
  assumes "prev_index l < i" and "i \<le> get_latest_index l" and "i < j"
  shows "get_entry_term (l\<lparr>entries := drop (unat i - unat (prev_index l)) (entries l),
                           prev_index := i, prev_term := t\<rparr>) j
           = get_entry_term l j"
proof -
  let ?l' = "l\<lparr>entries := drop (unat i - unat (prev_index l)) (entries l),
                prev_index := i, prev_term := t\<rparr>"
  have lat: "get_latest_index ?l' = get_latest_index l"
    using get_latest_index_drop [OF assms(1,2)] by (simp add: get_latest_index_def)
  have pj: "prev_index l < j" using assms(1,3) by simp
  then have "prev_index l \<le> j" and "j \<noteq> prev_index l" by auto
  moreover have "i \<le> j" and "j \<noteq> i" using assms(3) by auto
  ultimately show ?thesis
    using lat get_entry_ref_drop [OF assms, of t]
    by (simp add: get_entry_term_def)
qed

lemma append_entry_simps:
  "prev_index (append_entry l e) = prev_index l"
  "prev_term (append_entry l e) = prev_term l"
  "entries (append_entry l e) = entries l @ [e]"
  "get_latest_index (append_entry l e) = get_latest_index l + 1"
  by (simp_all add: append_entry_def get_latest_index_def deque_size_def)

lemma unat_latest_no_wrap:
  assumes "unat (prev_index l) + length (entries l) < 2 ^ 64 - 1"
  shows "unat (get_latest_index l) = unat (prev_index l) + length (entries l)"
    and "unat (get_latest_index l + 1) = unat (prev_index l) + length (entries l) + 1"
proof -
  show a: "unat (get_latest_index l) = unat (prev_index l) + length (entries l)"
    using assms by (simp add: get_latest_index_def deque_size_def unat_add_of_nat)
  have "unat (get_latest_index l + 1) = (unat (get_latest_index l) + 1) mod 2 ^ 64"
    using unat_add_of_nat [of "get_latest_index l" 1] by simp
  then show "unat (get_latest_index l + 1) = unat (prev_index l) + length (entries l) + 1"
    using a assms by simp
qed

section \<open>Claims\<close>

text \<open>
  Claim C1. The loop of \<open>is_quorum S\<close> counts the voting members that \<open>S\<close>
  contains, and \<open>is_quorum S\<close> is true exactly when that number is strictly more
  than half of the size of the voting set (twice the
  number exceeds the size; equivalently the number exceeds the size halved and rounded
  down). Members of \<open>S\<close> outside the voting set do not count: restricting \<open>S\<close> to
  the voting set gives the same answer. A complex configuration without a new
  configuration decides as its single configuration does, and under joint consensus
  it requires the majority of the old and of the new voting set separately.

  The counter \<open>votes\<close> and \<^verbatim>\<open>size()\<close> are \<^verbatim>\<open>size_t\<close>. The hypotheses bound the
  voting sets by \<open>2 ^ 63\<close> elements, which every \<^verbatim>\<open>std::set\<close> of a 64-bit address
  space satisfies (its \<^verbatim>\<open>max_size()\<close> is below that), so that \<^verbatim>\<open>votes * 2\<close> does
  not wrap around.
\<close>

theorem C1_is_quorum:
  assumes "fcard (voting_members c) < 2 ^ 63" and "fcard (voting_members n) < 2 ^ 63"
  shows "count_votes (voting_members c) (sorted_list_of_fset S) 0
           = of_nat (fcard (S |\<inter>| voting_members c))
   \<and> is_quorum c S = (fcard (voting_members c) < 2 * fcard (S |\<inter>| voting_members c))
   \<and> is_quorum c S = (fcard (voting_members c) div 2 < fcard (S |\<inter>| voting_members c))
   \<and> is_quorum c S = is_quorum c (S |\<inter>| voting_members c)
   \<and> cx_is_quorum \<lparr>config = c, new_config = None\<rparr> S
       = (fcard (voting_members c) < 2 * fcard (S |\<inter>| voting_members c))
   \<and> cx_is_quorum \<lparr>config = c, new_config = Some n\<rparr> S
       = (fcard (voting_members c) < 2 * fcard (S |\<inter>| voting_members c)
          \<and> fcard (voting_members n) < 2 * fcard (S |\<inter>| voting_members n))"
proof -
  have c: "is_quorum c S = (fcard (voting_members c) < 2 * fcard (S |\<inter>| voting_members c))"
    using assms(1) by (rule is_quorum_card)
  have n: "is_quorum n S = (fcard (voting_members n) < 2 * fcard (S |\<inter>| voting_members n))"
    using assms(2) by (rule is_quorum_card)
  have h: "(fcard (voting_members c) < 2 * fcard (S |\<inter>| voting_members c))
     = (fcard (voting_members c) div 2 < fcard (S |\<inter>| voting_members c))"
    by linarith
  show ?thesis
    using c n h is_quorum_voters_only [of c S] count_votes_sorted_list [of "voting_members c" S]
    by (simp add: cx_is_quorum_def is_joint_consensus_def)
qed

theorem C1_is_quorum_witness:
  "fcard (voting_members \<lparr>voting_members = {|1::nat, 2, 3|}, non_voting_members = {|4|}\<rparr>) < 2 ^ 63
   \<and> fcard (voting_members \<lparr>voting_members = {|3::nat, 4, 5|}, non_voting_members = {||}\<rparr>) < 2 ^ 63
   \<and> is_quorum \<lparr>voting_members = {|1::nat, 2, 3|}, non_voting_members = {|4|}\<rparr> {|1, 2, 4|}
   \<and> \<not> cx_is_quorum \<lparr>config = \<lparr>voting_members = {|1::nat, 2, 3|}, non_voting_members = {|4|}\<rparr>,
         new_config = Some \<lparr>voting_members = {|3::nat, 4, 5|}, non_voting_members = {||}\<rparr>\<rparr>
        {|1, 2, 4|}"
proof -
  let ?c = "\<lparr>voting_members = {|1::nat, 2, 3|}, non_voting_members = {|4|}\<rparr>"
  let ?n = "\<lparr>voting_members = {|3::nat, 4, 5|}, non_voting_members = {||}\<rparr>"
  have hc: "fcard (voting_members ?c) < 2 ^ 63" by (simp add: fcard_finsert_if fcard_fempty)
  have hn: "fcard (voting_members ?n) < 2 ^ 63" by (simp add: fcard_finsert_if fcard_fempty)
  have ic: "fcard ({|1::nat, 2, 4|} |\<inter>| voting_members ?c) = 2" by (simp add: fcard_finsert_if fcard_fempty)
  have "{|1::nat, 2, 4|} |\<inter>| {|3, 4, 5|} = {|4|}" by auto
  then have inn: "fcard ({|1::nat, 2, 4|} |\<inter>| voting_members ?n) = 1"
    by (simp add: fcard_finsert_if fcard_fempty)
  have vc: "fcard (voting_members ?c) = 3" by (simp add: fcard_finsert_if fcard_fempty)
  have vn: "fcard (voting_members ?n) = 3" by (simp add: fcard_finsert_if fcard_fempty)
  show ?thesis
    using C1_is_quorum [OF hc hn, of "{|1, 2, 4|}"] hc hn
    unfolding ic inn vc vn by simp
qed

text \<open>
  Claim C2. For a single configuration, \<open>is_valid_leader m\<close> is true exactly when
  \<open>m\<close> is in the voting set. For a complex configuration it is true exactly when \<open>m\<close>
  is a valid leader of \<open>config\<close> or, under joint consensus, of \<open>new_config\<close>: without
  a new configuration it agrees with the single configuration, and with one it is the
  disjunction of the two sides.
\<close>

theorem C2_is_valid_leader:
  "is_valid_leader c m = (m |\<in>| voting_members c)
   \<and> cx_is_valid_leader \<lparr>config = c, new_config = None\<rparr> m = is_valid_leader c m
   \<and> cx_is_valid_leader \<lparr>config = c, new_config = Some n\<rparr> m
       = (is_valid_leader c m \<or> is_valid_leader n m)
   \<and> cx_is_valid_leader \<lparr>config = c, new_config = Some n\<rparr> m
       = (m |\<in>| voting_members c \<or> m |\<in>| voting_members n)"
  by (simp add: cx_is_valid_leader_def is_joint_consensus_def is_valid_leader_iff)

theorem C2_is_valid_leader_witness:
  "is_valid_leader \<lparr>voting_members = {|1::nat, 2, 3|}, non_voting_members = {|4|}\<rparr> 2
   \<and> \<not> is_valid_leader \<lparr>voting_members = {|1::nat, 2, 3|}, non_voting_members = {|4|}\<rparr> 4
   \<and> \<not> cx_is_valid_leader
         \<lparr>config = \<lparr>voting_members = {|1::nat, 2, 3|}, non_voting_members = {|4|}\<rparr>,
          new_config = None\<rparr> 4
   \<and> cx_is_valid_leader
         \<lparr>config = \<lparr>voting_members = {|1::nat, 2, 3|}, non_voting_members = {|4|}\<rparr>,
          new_config = Some \<lparr>voting_members = {|3, 4, 5|}, non_voting_members = {||}\<rparr>\<rparr> 4"
  using C2_is_valid_leader
      [of "\<lparr>voting_members = {|1::nat, 2, 3|}, non_voting_members = {|4|}\<rparr>" 2]
    C2_is_valid_leader
      [of "\<lparr>voting_members = {|1::nat, 2, 3|}, non_voting_members = {|4|}\<rparr>" 4
          "\<lparr>voting_members = {|3, 4, 5|}, non_voting_members = {||}\<rparr>"]
    C2_is_valid_leader
      [of "\<lparr>voting_members = {|3::nat, 4, 5|}, non_voting_members = {||}\<rparr>" 4]
  by simp

text \<open>
  Claim C3. For \<open>prev_index < i \<le> get_latest_index\<close>, \<open>delete_entries_to l i\<close>
  returns a slice \<open>l'\<close> whose \<open>prev_index\<close> is \<open>i\<close> and whose \<open>prev_term\<close> is
  the term \<open>l\<close> had at index \<open>i\<close>. Its entries are those of \<open>l\<close> without the
  first \<open>i - prev_index\<close> (which \<open>l\<close> has), the entries of the indices up to \<open>i\<close>:
  no index \<open>k \<le> i\<close> has an entry any more. The latest index is unchanged, and every
  index \<open>j > i\<close> has the entry and the term it had in \<open>l\<close>.
\<close>

theorem C3_delete_entries_to:
  assumes "prev_index l < i" and "i \<le> get_latest_index l"
  shows "\<exists>l'. delete_entries_to l i = Inr l'
     \<and> prev_index l' = i
     \<and> get_entry_term l i = Inr (prev_term l')
     \<and> entries l' = drop (unat i - unat (prev_index l)) (entries l)
     \<and> unat i - unat (prev_index l) \<le> length (entries l)
     \<and> get_latest_index l' = get_latest_index l
     \<and> (i < j \<longrightarrow> get_entry_ref l' j = get_entry_ref l j
                   \<and> get_entry_term l' j = get_entry_term l j)
     \<and> (k \<le> i \<longrightarrow> get_entry_ref l' k = Inl Log_doesnt_go_back_this_far)"
proof -
  let ?t = "term (entries l ! (unat i - unat (prev_index l) - 1))"
  let ?l' = "l\<lparr>entries := drop (unat i - unat (prev_index l)) (entries l),
                prev_index := i, prev_term := ?t\<rparr>"
  have del: "delete_entries_to l i = Inr ?l'"
    using assms by (rule delete_entries_to_in_log)
  have trm: "get_entry_term l i = Inr ?t"
    using assms by (rule get_entry_term_in_log)
  have len: "unat i - unat (prev_index l) \<le> length (entries l)"
    using assms by (rule in_log_offset(2))
  have lat: "get_latest_index ?l' = get_latest_index l"
    using get_latest_index_drop [OF assms] by (simp add: get_latest_index_def)
  have above: "get_entry_ref ?l' j = get_entry_ref l j \<and> get_entry_term ?l' j = get_entry_term l j"
    if "i < j"
    using get_entry_ref_drop [OF assms that] get_entry_term_drop [OF assms that] by simp
  have below: "get_entry_ref ?l' k = Inl Log_doesnt_go_back_this_far" if "k \<le> i"
  proof -
    have "\<not> prev_index ?l' < k" using that by (simp add: not_less)
    then show ?thesis unfolding get_entry_ref_def by (rule if_P)
  qed
  show ?thesis
    using del trm len lat above below by simp
qed

theorem C3_delete_entries_to_witness:
  "prev_index ex_log < 7 \<and> 7 \<le> get_latest_index ex_log
   \<and> delete_entries_to ex_log 7
        = Inr \<lparr>prev_index = 7, prev_term = 3, entries = [ex_entry 4]\<rparr>
   \<and> get_entry_term ex_log 7 = Inr 3
   \<and> get_latest_index \<lparr>prev_index = 7, prev_term = 3, entries = [ex_entry 4 :: (nat, nat) raft_log_entry_t]\<rparr>
        = get_latest_index ex_log
   \<and> (7::64 word) < 8
   \<and> get_entry_ref \<lparr>prev_index = 7, prev_term = 3, entries = [ex_entry 4]\<rparr> 8
        = get_entry_ref ex_log 8
   \<and> get_entry_ref ex_log 8 = Inr (ex_entry 4)
   \<and> (6::64 word) \<le> 7
   \<and> get_entry_ref \<lparr>prev_index = 7, prev_term = 3, entries = [ex_entry 4 :: (nat, nat) raft_log_entry_t]\<rparr> 6
        = Inl Log_doesnt_go_back_this_far"
proof -
  have h1: "prev_index ex_log < 7" and h2: "7 \<le> get_latest_index ex_log"
    by (simp_all add: ex_log_simps)
  have t: "get_entry_term ex_log 7 = Inr 3"
    by (simp add: get_entry_term_def get_entry_ref_def deque_at_def ex_log_simps ex_entry_def)
  have d: "delete_entries_to ex_log 7
             = Inr \<lparr>prev_index = 7, prev_term = 3, entries = [ex_entry 4]\<rparr>"
    by (simp add: delete_entries_to_def t deque_erase_def ex_log_simps)
  have r: "get_entry_ref ex_log 8 = Inr (ex_entry 4)"
    by (simp add: get_entry_ref_def deque_at_def ex_log_simps)
  show ?thesis
    using C3_delete_entries_to [OF h1 h2, of 8 6] h1 h2 r t
    unfolding d by (simp add: ex_log_simps)
qed

text \<open>
  Claim C4. For \<open>prev_index < i \<le> get_latest_index\<close>, \<open>delete_entries_from l i\<close>
  returns a slice \<open>l'\<close> whose latest index is \<open>i - 1\<close> (also as a number: the
  subtraction does not wrap around), and whose \<open>prev_index\<close>
  and \<open>prev_term\<close> are those of \<open>l\<close>. Its entries are the first
  \<open>i - prev_index - 1\<close> entries of \<open>l\<close> (fewer than \<open>l\<close> has), so every index
  \<open>j < i\<close> has the entry and the term it had in \<open>l\<close>, and no index \<open>k \<ge> i\<close>
  has an entry any more.
\<close>

theorem C4_delete_entries_from:
  assumes "prev_index l < i" and "i \<le> get_latest_index l"
  shows "\<exists>l'. delete_entries_from l i = Inr l'
     \<and> get_latest_index l' = i - 1
     \<and> unat (get_latest_index l') + 1 = unat i
     \<and> prev_index l' = prev_index l \<and> prev_term l' = prev_term l
     \<and> entries l' = take (unat i - unat (prev_index l) - 1) (entries l)
     \<and> unat i - unat (prev_index l) - 1 < length (entries l)
     \<and> (j < i \<longrightarrow> get_entry_ref l' j = get_entry_ref l j
                   \<and> get_entry_term l' j = get_entry_term l j)
     \<and> (i \<le> k \<longrightarrow> get_entry_ref l' k = Inl Log_doesnt_go_forward_this_far)"
proof -
  let ?l' = "l\<lparr>entries := take (unat i - unat (prev_index l) - 1) (entries l)\<rparr>"
  have del: "delete_entries_from l i = Inr ?l'"
    using assms by (rule delete_entries_from_in_log)
  have lat: "get_latest_index ?l' = i - 1"
    using get_latest_index_take [OF assms] by (simp add: get_latest_index_def)
  have len: "unat i - unat (prev_index l) - 1 < length (entries l)"
    using assms by (rule in_log_offset(3))
  have "i \<noteq> 0" using assms(1) by auto
  then have "unat (i - 1) = unat i - 1" and "0 < unat i"
    by (simp_all add: unat_minus_one unat_gt_0)
  then have num: "unat (get_latest_index ?l') + 1 = unat i"
    using lat by simp
  have below: "get_entry_ref ?l' j = get_entry_ref l j \<and> get_entry_term ?l' j = get_entry_term l j"
    if "j < i"
    using get_entry_ref_take [OF assms that] get_entry_term_take [OF assms that] by simp
  have above: "get_entry_ref ?l' k = Inl Log_doesnt_go_forward_this_far" if "i \<le> k"
  proof -
    have "prev_index l < k" using assms(1) that by simp
    moreover have "\<not> k \<le> i - 1"
      using that by (simp add: word_pred_less(2) [OF assms(1), symmetric])
    ultimately show ?thesis
      using lat by (simp add: get_entry_ref_def)
  qed
  show ?thesis
    using del lat num len below above by simp
qed

theorem C4_delete_entries_from_witness:
  "prev_index ex_log < 7 \<and> 7 \<le> get_latest_index ex_log
   \<and> delete_entries_from ex_log 7
        = Inr \<lparr>prev_index = 5, prev_term = 2, entries = [ex_entry 3]\<rparr>
   \<and> get_latest_index \<lparr>prev_index = 5, prev_term = 2, entries = [ex_entry 3 :: (nat, nat) raft_log_entry_t]\<rparr> = 6
   \<and> (6::64 word) < 7
   \<and> get_entry_ref \<lparr>prev_index = 5, prev_term = 2, entries = [ex_entry 3]\<rparr> 6
        = get_entry_ref ex_log 6
   \<and> get_entry_ref ex_log 6 = Inr (ex_entry 3)
   \<and> (7::64 word) \<le> 8
   \<and> get_entry_ref \<lparr>prev_index = 5, prev_term = 2, entries = [ex_entry 3 :: (nat, nat) raft_log_entry_t]\<rparr> 8
        = Inl Log_doesnt_go_forward_this_far"
proof -
  have h1: "prev_index ex_log < 7" and h2: "7 \<le> get_latest_index ex_log"
    by (simp_all add: ex_log_simps)
  have d: "delete_entries_from ex_log 7
             = Inr \<lparr>prev_index = 5, prev_term = 2, entries = [ex_entry 3]\<rparr>"
    by (simp add: delete_entries_from_def deque_erase_def ex_log_simps)
  have r: "get_entry_ref ex_log 6 = Inr (ex_entry 3)"
    by (simp add: get_entry_ref_def deque_at_def ex_log_simps)
  show ?thesis
    using C4_delete_entries_from [OF h1 h2, of 6 8] h1 h2 r
    unfolding d by (simp add: ex_log_simps)
qed

text \<open>
  Claim C5. For an index \<open>i\<close> with \<open>prev_index \<le> i \<le> get_latest_index\<close>,
  \<open>get_entry_term\<close> returns a term (\<open>Inr\<close>): neither of its guards fails, nor one
  of \<open>get_entry_ref\<close>, and the position read in the deque is inside it. The term is
  \<open>prev_term\<close> when \<open>i = prev_index\<close>, and otherwise the \<open>term\<close> field of the
  stored entry for index \<open>i\<close>, the one at position \<open>i - prev_index - 1\<close> of
  \<open>entries\<close>, which is the entry \<open>get_entry_ref\<close> returns.
\<close>

theorem C5_get_entry_term:
  assumes "prev_index l \<le> i" and "i \<le> get_latest_index l"
  shows "get_entry_term l i
           = Inr (if i = prev_index l then prev_term l
                  else term (entries l ! (unat i - unat (prev_index l) - 1)))
     \<and> (i \<noteq> prev_index l \<longrightarrow>
           unat i - unat (prev_index l) - 1 < length (entries l)
           \<and> get_entry_ref l i = Inr (entries l ! (unat i - unat (prev_index l) - 1)))"
proof (cases "i = prev_index l")
  case True
  then show ?thesis using assms by (simp add: get_entry_term_def)
next
  case False
  then have lt: "prev_index l < i" using assms(1) by simp
  show ?thesis
    using False get_entry_term_in_log [OF lt assms(2)] get_entry_ref_in_log [OF lt assms(2)]
      in_log_offset(3) [OF lt assms(2)]
    by simp
qed

theorem C5_get_entry_term_witness:
  "prev_index ex_log \<le> 7 \<and> 7 \<le> get_latest_index ex_log
   \<and> get_entry_term ex_log 7 = Inr 3 \<and> get_entry_ref ex_log 7 = Inr (ex_entry 3)
   \<and> prev_index ex_log \<le> 5 \<and> 5 \<le> get_latest_index ex_log
   \<and> get_entry_term ex_log 5 = Inr 2"
  using C5_get_entry_term [of ex_log 7] C5_get_entry_term [of ex_log 5]
  by (simp add: ex_log_simps ex_entry_def)

text \<open>
  Claim C6, amended. As stated, for every slice, the claim fails where
  \<open>prev_index\<close> plus the number of entries is not representable as a
  \<^verbatim>\<open>raft_log_index_t\<close>: the 64-bit addition wraps around, and the result is a
  smaller number than the sum, below \<open>prev_index\<close> itself (the counterexample below,
  at \<open>prev_index = 2 ^ 64 - 2\<close> with three entries, where the result is 1).

  For a slice with \<open>prev_index + length entries < 2 ^ 64\<close>, as numbers,
  \<open>get_latest_index\<close> is \<open>prev_index\<close> plus the number of stored entries. For a slice
  without entries it is \<open>prev_index\<close>.
\<close>

theorem C6_get_latest_index:
  assumes "unat (prev_index l) + length (entries l) < 2 ^ 64"
  shows "unat (get_latest_index l) = unat (prev_index l) + length (entries l)
     \<and> get_latest_index \<lparr>prev_index = p, prev_term = t, entries = []\<rparr> = p"
  using assms by (simp add: get_latest_index_def deque_size_def unat_add_of_nat)

theorem C6_get_latest_index_counterexample:
  "get_latest_index ex_log_wrapped = 1
   \<and> unat (get_latest_index ex_log_wrapped)
       \<noteq> unat (prev_index ex_log_wrapped) + length (entries ex_log_wrapped)
   \<and> get_latest_index ex_log_wrapped < prev_index ex_log_wrapped"
  by (simp add: get_latest_index_def deque_size_def ex_log_wrapped_def)

theorem C6_get_latest_index_witness:
  "unat (prev_index ex_log) + length (entries ex_log) < 2 ^ 64
   \<and> unat (get_latest_index ex_log) = 8
   \<and> unat (prev_index ex_log) + length (entries ex_log) = 8"
proof -
  have h: "unat (prev_index ex_log) + length (entries ex_log) < 2 ^ 64"
    by (simp add: ex_log_simps(1,3))
  have v: "unat (prev_index ex_log) + length (entries ex_log) = 8"
    by (simp add: ex_log_simps(1,3))
  show ?thesis
    using C6_get_latest_index [OF h, THEN conjunct1] h v by simp
qed

text \<open>
  Claim C7. \<open>get_all_members\<close> of a configuration is the union of its voting and
  non-voting members; for a complex configuration it is that union for \<open>config\<close>
  alone when there is no new configuration, and the union of the memberships of the old
  and the new configuration under joint consensus.
\<close>

theorem C7_get_all_members:
  "get_all_members c = voting_members c |\<union>| non_voting_members c
   \<and> cx_get_all_members \<lparr>config = c, new_config = None\<rparr> = get_all_members c
   \<and> cx_get_all_members \<lparr>config = c, new_config = Some n\<rparr>
       = get_all_members c |\<union>| get_all_members n
   \<and> cx_get_all_members \<lparr>config = c, new_config = Some n\<rparr>
       = (voting_members c |\<union>| non_voting_members c)
         |\<union>| (voting_members n |\<union>| non_voting_members n)"
  by (simp add: cx_get_all_members_def is_joint_consensus_def get_all_members_union
      insert_range_union)

theorem C7_get_all_members_witness:
  "get_all_members \<lparr>voting_members = {|1::nat, 2, 3|}, non_voting_members = {|4|}\<rparr>
     = {|1, 2, 3, 4|}
   \<and> cx_get_all_members
         \<lparr>config = \<lparr>voting_members = {|1::nat, 2, 3|}, non_voting_members = {|4|}\<rparr>,
          new_config = Some \<lparr>voting_members = {|3, 4, 5|}, non_voting_members = {||}\<rparr>\<rparr>
     = {|1, 2, 3, 4, 5|}"
  using C7_get_all_members
      [of "\<lparr>voting_members = {|1::nat, 2, 3|}, non_voting_members = {|4|}\<rparr>"
          "\<lparr>voting_members = {|3, 4, 5|}, non_voting_members = {||}\<rparr>"]
  by auto

text \<open>
  Claim C8. The election timeout bounds are 1000 ms and 2000 ms and the heartbeat
  interval is 500 ms, so the heartbeat interval is strictly below the minimum election
  timeout (as numbers, and in the signed order of \<^verbatim>\<open>int32_t\<close>).
\<close>

theorem C8_timing_constants:
  "sint election_timeout_min_ms = 1000
   \<and> sint election_timeout_max_ms = 2000
   \<and> sint heartbeat_interval_ms = 500
   \<and> sint heartbeat_interval_ms < sint election_timeout_min_ms
   \<and> heartbeat_interval_ms <s election_timeout_min_ms"
  by (simp add: election_timeout_min_ms_def election_timeout_max_ms_def
      heartbeat_interval_ms_def word_sless_alt)

text \<open>
  Claim C9. Quorum overlap: two sets that are both quorums of a configuration share a
  voting member of it; for a complex configuration (with or without a new
  configuration) two quorums share a member of the voting set of \<open>config\<close>, the old
  configuration. With an empty voting set no set is a quorum, of the configuration or
  of a complex configuration built on it. The bound on the voting set is the one of
  claim C1.
\<close>

theorem C9_quorum_overlap:
  assumes "fcard (voting_members c) < 2 ^ 63"
  shows "(is_quorum c S \<and> is_quorum c T
            \<longrightarrow> (\<exists>m. m |\<in>| S \<and> m |\<in>| T \<and> m |\<in>| voting_members c))
   \<and> (cx_is_quorum \<lparr>config = c, new_config = nc\<rparr> S
        \<and> cx_is_quorum \<lparr>config = c, new_config = nc\<rparr> T
            \<longrightarrow> (\<exists>m. m |\<in>| S \<and> m |\<in>| T \<and> m |\<in>| voting_members c))
   \<and> (voting_members e = {||}
            \<longrightarrow> \<not> is_quorum e S \<and> \<not> cx_is_quorum \<lparr>config = e, new_config = nc\<rparr> S)"
proof -
  have single: "\<exists>m. m |\<in>| S \<and> m |\<in>| T \<and> m |\<in>| voting_members c"
    if "is_quorum c S" and "is_quorum c T"
    using that majorities_share_voter [of "voting_members c" S T]
    by (simp add: is_quorum_card [OF assms])
  have cx: "is_quorum c X" if "cx_is_quorum \<lparr>config = c, new_config = nc\<rparr> X" for X
    using that by (cases nc) (simp_all add: cx_is_quorum_def is_joint_consensus_def)
  have empty: "\<not> cx_is_quorum \<lparr>config = e, new_config = nc\<rparr> S" if "voting_members e = {||}"
    using is_quorum_empty_voting [OF that, of S] by (cases nc) (simp_all add: cx_is_quorum_def is_joint_consensus_def)
  show ?thesis
    using single cx empty is_quorum_empty_voting [of e S] by blast
qed

theorem C9_quorum_overlap_witness:
  "fcard (voting_members \<lparr>voting_members = {|1::nat, 2, 3|}, non_voting_members = {|4|}\<rparr>) < 2 ^ 63
   \<and> cx_is_quorum \<lparr>config = \<lparr>voting_members = {|1::nat, 2, 3|}, non_voting_members = {|4|}\<rparr>,
         new_config = Some \<lparr>voting_members = {|3::nat, 4, 5|}, non_voting_members = {||}\<rparr>\<rparr>
        {|1, 2, 4, 5|}
   \<and> cx_is_quorum \<lparr>config = \<lparr>voting_members = {|1::nat, 2, 3|}, non_voting_members = {|4|}\<rparr>,
         new_config = Some \<lparr>voting_members = {|3::nat, 4, 5|}, non_voting_members = {||}\<rparr>\<rparr>
        {|2, 3, 4|}
   \<and> is_quorum \<lparr>voting_members = {|1::nat, 2, 3|}, non_voting_members = {|4|}\<rparr> {|1, 2, 4, 5|}
   \<and> is_quorum \<lparr>voting_members = {|1::nat, 2, 3|}, non_voting_members = {|4|}\<rparr> {|2, 3, 4|}
   \<and> (\<exists>m. m |\<in>| {|1::nat, 2, 4, 5|} \<and> m |\<in>| {|2, 3, 4|} \<and> m |\<in>| {|1, 2, 3|})
   \<and> voting_members \<lparr>voting_members = {||}, non_voting_members = {|4::nat|}\<rparr> = {||}
   \<and> \<not> is_quorum \<lparr>voting_members = {||}, non_voting_members = {|4::nat|}\<rparr> {|1, 2, 4, 5|}"
proof -
  let ?c = "\<lparr>voting_members = {|1::nat, 2, 3|}, non_voting_members = {|4|}\<rparr>"
  let ?n = "\<lparr>voting_members = {|3::nat, 4, 5|}, non_voting_members = {||}\<rparr>"
  let ?e = "\<lparr>voting_members = {||}, non_voting_members = {|4::nat|}\<rparr>"
  let ?S = "{|1::nat, 2, 4, 5|}" and ?T = "{|2::nat, 3, 4|}"
  have hc: "fcard (voting_members ?c) < 2 ^ 63" by (simp add: fcard_finsert_if fcard_fempty)
  have he: "voting_members ?e = {||}" by simp
  have qS: "cx_is_quorum \<lparr>config = ?c, new_config = Some ?n\<rparr> ?S" by code_simp
  have qT: "cx_is_quorum \<lparr>config = ?c, new_config = Some ?n\<rparr> ?T" by code_simp
  have sS: "is_quorum ?c ?S" by code_simp
  have sT: "is_quorum ?c ?T" by code_simp
  show ?thesis
    using C9_quorum_overlap [OF hc, of ?S ?T "Some ?n" ?e] hc he qS qT sS sT
    by (simp del: finsert_iff)
qed

text \<open>
  Claim C10, amended. As stated, for every slice, the claim fails where the index
  after the latest one is not representable: \<open>get_latest_index l + 1\<close> wraps around
  to an index that is not above \<open>prev_index\<close>, and the guards of
  \<open>delete_entries_from\<close> and \<open>get_entry_term\<close> abort (the counterexample below).

  For a slice \<open>l\<close> with \<open>prev_index + length entries + 1 < 2 ^ 64\<close>, as numbers:
  appending \<open>e\<close> and deleting from the old latest index plus one gives \<open>l\<close> back;
  after the append alone the latest index is one more than before, and the term at
  the new latest index is the term of \<open>e\<close>.
\<close>

theorem C10_append_then_delete:
  assumes "unat (prev_index l) + length (entries l) < 2 ^ 64 - 1"
  shows "delete_entries_from (append_entry l e) (get_latest_index l + 1) = Inr l
     \<and> get_latest_index (append_entry l e) = get_latest_index l + 1
     \<and> unat (get_latest_index (append_entry l e)) = unat (get_latest_index l) + 1
     \<and> get_entry_term (append_entry l e) (get_latest_index (append_entry l e)) = Inr (term e)"
proof -
  let ?l' = "append_entry l e" and ?i = "get_latest_index l + 1"
  have u: "unat ?i = unat (prev_index l) + length (entries l) + 1"
    using assms by (rule unat_latest_no_wrap(2))
  have lt: "prev_index ?l' < ?i"
    using u by (simp add: word_less_nat_alt append_entry_simps)
  have le: "?i \<le> get_latest_index ?l'"
    by (simp add: append_entry_simps)
  have off: "unat ?i - unat (prev_index ?l') - 1 = length (entries l)"
    using u by (simp add: append_entry_simps)
  have "delete_entries_from ?l' ?i = Inr (?l'\<lparr>entries := entries l\<rparr>)"
    using delete_entries_from_in_log [OF lt le] off by (simp add: append_entry_simps)
  then have del: "delete_entries_from ?l' ?i = Inr l"
    by (simp add: append_entry_def)
  have "get_entry_term ?l' ?i = Inr (term (entries ?l' ! length (entries l)))"
    using get_entry_term_in_log [OF lt le] off by simp
  then have trm: "get_entry_term ?l' (get_latest_index ?l') = Inr (term e)"
    by (simp add: append_entry_simps)
  have "unat (get_latest_index ?l') = unat (get_latest_index l) + 1"
    using u unat_latest_no_wrap(1) [OF assms] by (simp add: append_entry_simps)
  then show ?thesis
    using del trm by (simp add: append_entry_simps)
qed

theorem C10_append_then_delete_counterexample:
  "delete_entries_from (append_entry ex_log_at_max (ex_entry 9)) (get_latest_index ex_log_at_max + 1)
     = Inl Log_doesnt_go_back_this_far
   \<and> delete_entries_from (append_entry ex_log_at_max (ex_entry 9)) (get_latest_index ex_log_at_max + 1)
     \<noteq> Inr ex_log_at_max
   \<and> get_latest_index (append_entry ex_log_at_max (ex_entry 9)) = 0
   \<and> get_entry_term (append_entry ex_log_at_max (ex_entry 9))
        (get_latest_index (append_entry ex_log_at_max (ex_entry 9)))
     = Inl Log_doesnt_go_back_this_far"
  by (simp add: delete_entries_from_def get_entry_term_def append_entry_def get_latest_index_def
      deque_size_def ex_log_at_max_def)

theorem C10_append_then_delete_witness:
  "unat (prev_index ex_log) + length (entries ex_log) < 2 ^ 64 - 1
   \<and> delete_entries_from (append_entry ex_log (ex_entry 9)) 9 = Inr ex_log
   \<and> get_latest_index (append_entry ex_log (ex_entry 9)) = 9
   \<and> get_entry_term (append_entry ex_log (ex_entry 9)) 9 = Inr 9"
proof -
  have h: "unat (prev_index ex_log) + length (entries ex_log) < 2 ^ 64 - 1"
    by (simp add: ex_log_simps)
  show ?thesis
    using C10_append_then_delete [OF h, of "ex_entry 9"] h
    by (simp add: ex_log_simps ex_entry_def append_entry_simps(4))
qed

end
